theory Spec2Isabelle
  imports Main "HOL-Library.List_Lexorder" "HOL-Library.Product_Lexorder" "HOL-Library.Multiset"
begin

section \<open>Strings and the Unicode tables\<close>

text \<open>
  A Python \<open>str\<close> is a sequence of Unicode code points, and \<open>len\<close>, indexing,
  comparison and the regular expressions of the source all work on code points. A string
  is therefore a list of code points (natural numbers), not a list of bytes. Comparison of
  two strings is lexicographic on the code points, which is the order that
  \<open>HOL-Library.List_Lexorder\<close> puts on \<open>nat list\<close>; a tuple of strings compares
  lexicographically as well (\<open>HOL-Library.Product_Lexorder\<close>).
\<close>

type_synonym ustring = "nat list"

abbreviation asc :: "string \<Rightarrow> ustring" where
  "asc s \<equiv> map of_char s"

text \<open>
  The character classes \<open>\w\<close> and \<open>\d\<close>, \<open>str.isdigit\<close>, \<open>int\<close>,
  \<open>str.lower\<close> and the letter matching of \<open>re.IGNORECASE\<close> read the Unicode
  character database of the interpreter. The database is no part of the repository, so
  the functions below take it as a parameter:
  \<^item> \<open>isalnum c\<close>: \<open>str.isalnum\<close> of the character; \<open>\w\<close> is this or the underscore;
  \<^item> \<open>digit_of c\<close>: \<open>Decimal d\<close> for a decimal digit of value \<open>d\<close> (these are the
    characters of \<open>\d\<close>, and the ones \<open>int\<close> accepts), \<open>OtherDigit\<close> for a character
    that \<open>str.isdigit\<close> accepts and \<open>int\<close> rejects (superscript two, say), \<open>NotDigit\<close>
    otherwise;
  \<^item> \<open>str_lower s\<close>: \<open>s.lower()\<close>;
  \<^item> \<open>ieq p c\<close>: the character \<open>c\<close> of the text matches the letter \<open>p\<close> of a pattern
    compiled with \<open>re.IGNORECASE\<close>.
\<close>

datatype digit_class = NotDigit | Decimal nat | OtherDigit

record unicode_tables =
  isalnum :: "nat \<Rightarrow> bool"
  digit_of :: "nat \<Rightarrow> digit_class"
  str_lower :: "ustring \<Rightarrow> ustring"
  ieq :: "nat \<Rightarrow> nat \<Rightarrow> bool"

text \<open>
  Whitespace is the same finite set for \<open>\s\<close> and for \<open>str.strip\<close>
  (\<open>str.isspace\<close>): U+0009 to U+000D, U+001C to U+0020, U+0085, U+00A0, U+1680,
  U+2000 to U+200A, U+2028, U+2029, U+202F, U+205F and U+3000.
\<close>

definition is_space :: "nat \<Rightarrow> bool" where
  "is_space c \<longleftrightarrow>
     (9 \<le> c \<and> c \<le> 13) \<or> (28 \<le> c \<and> c \<le> 32) \<or> c = 133 \<or> c = 160 \<or> c = 5760 \<or>
     (8192 \<le> c \<and> c \<le> 8202) \<or> c = 8232 \<or> c = 8233 \<or> c = 8239 \<or> c = 8287 \<or> c = 12288"

definition is_word :: "unicode_tables \<Rightarrow> nat \<Rightarrow> bool" where
  "is_word U c \<longleftrightarrow> c = 95 \<or> isalnum U c"

definition is_decimal :: "unicode_tables \<Rightarrow> nat \<Rightarrow> bool" where
  "is_decimal U c \<longleftrightarrow> (case digit_of U c of Decimal d \<Rightarrow> True | _ \<Rightarrow> False)"

text \<open>\<open>s.isdigit()\<close>: the string is not empty and every character is a digit.\<close>

definition str_isdigit :: "unicode_tables \<Rightarrow> ustring \<Rightarrow> bool" where
  "str_isdigit U s \<longleftrightarrow> s \<noteq> [] \<and> list_all (\<lambda>c. digit_of U c \<noteq> NotDigit) s"

text \<open>
  \<open>int(s)\<close> for a string that passed \<open>isdigit\<close>: the decimal value, or no value
  (Python raises \<open>ValueError\<close>) when the string has more digits than the interpreter
  converts, or when a digit is not a decimal one. The bound on the digits is the default
  of CPython, 4300 (\<open>sys.get_int_max_str_digits()\<close>); leading zeros count.
\<close>

definition int_max_str_digits :: nat where
  "int_max_str_digits = 4300"

definition int_of_digits :: "unicode_tables \<Rightarrow> ustring \<Rightarrow> int option" where
  "int_of_digits U s =
     (if int_max_str_digits < length s then None
      else foldl (\<lambda>acc c. case acc of None \<Rightarrow> None
                        | Some a \<Rightarrow> (case digit_of U c of Decimal d \<Rightarrow> Some (10 * a + int d)
                                     | _ \<Rightarrow> None))
                 (Some 0) s)"

text \<open>\<open>s.strip()\<close> removes the whitespace at both ends.\<close>

definition strip :: "ustring \<Rightarrow> ustring" where
  "strip s = rev (dropWhile is_space (rev (dropWhile is_space s)))"

text \<open>\<open>str(n)\<close> for an integer: its decimal digits, with a minus sign below zero.\<close>

function str_nat :: "nat \<Rightarrow> ustring" where
  "str_nat n = (if n < 10 then [48 + n] else str_nat (n div 10) @ [48 + n mod 10])"
  by pat_completeness auto
termination
  by (relation "measure (\<lambda>n. n)") auto

definition str_int :: "int \<Rightarrow> ustring" where
  "str_int i = (if i < 0 then 45 # str_nat (nat (- i)) else str_nat (nat i))"

text \<open>\<open>p in t\<close> for two strings: \<open>p\<close> occurs in \<open>t\<close> as a contiguous substring.\<close>

fun contains :: "ustring \<Rightarrow> ustring \<Rightarrow> bool" where
  "contains p [] \<longleftrightarrow> p = []"
| "contains p (x # xs) \<longleftrightarrow> take (length p) (x # xs) = p \<or> contains p xs"

text \<open>\<open>sep.join(xs)\<close>.\<close>

fun join :: "ustring \<Rightarrow> ustring list \<Rightarrow> ustring" where
  "join sep [] = []"
| "join sep [x] = x"
| "join sep (x # y # ys) = x @ sep @ join sep (y # ys)"

text \<open>
  The literals of the source that are not ASCII, by code point. In Latin letters they
  read: \<open>Stor\<close> and \<open>stor\<close> (the abbreviation of the word for page), \<open>Rozdil\<close>
  (section), \<open>Hlava\<close> (chapter), \<open>Tema\<close> (topic), \<open>Vstup\<close> (introduction),
  \<open>Zahalnyi kontekst\<close> (general context), \<open>Nevidomyi fail\<close> (unknown file),
  \<open>Tekst\<close> (text) and \<open>Dzherela\<close> (sources).
\<close>

definition lit_Stor :: ustring where "lit_Stor = [1057, 1090, 1086, 1088]"
definition lit_stor :: ustring where "lit_stor = [1089, 1090, 1086, 1088]"
definition lit_Rozdil :: ustring where "lit_Rozdil = [1056, 1086, 1079, 1076, 1110, 1083]"
definition lit_Hlava :: ustring where "lit_Hlava = [1043, 1083, 1072, 1074, 1072]"
definition lit_Tema :: ustring where "lit_Tema = [1058, 1077, 1084, 1072]"
definition lit_Vstup :: ustring where "lit_Vstup = [1042, 1089, 1090, 1091, 1087]"
definition lit_Tekst :: ustring where "lit_Tekst = [1058, 1077, 1082, 1089, 1090]"
definition lit_Dzherela :: ustring where
  "lit_Dzherela = [1044, 1078, 1077, 1088, 1077, 1083, 1072]"
definition lit_Zahalnyi_kontekst :: ustring where
  "lit_Zahalnyi_kontekst =
     [1047, 1072, 1075, 1072, 1083, 1100, 1085, 1080, 1081, 32,
      1082, 1086, 1085, 1090, 1077, 1082, 1089, 1090]"
definition lit_Nevidomyi_fail :: ustring where
  "lit_Nevidomyi_fail =
     [1053, 1077, 1074, 1110, 1076, 1086, 1084, 1080, 1081, 32, 1092, 1072, 1081, 1083]"

text \<open>The em dash U+2014 between a title and its file name.\<close>

definition em_dash :: nat where "em_dash = 8212"

section \<open>Text normalizer (ingestion.py)\<close>

text \<open>
  \<open>re.sub(r'(\w+)-\n\s*(\w+)', r'\1\2', text)\<close>. An attempt to match at the head of
  \<open>xs\<close>: the longest run of word characters, a hyphen (U+002D), a line feed (U+000A),
  the longest run of whitespace, the longest run of word characters. The greedy runs
  never have to give characters back, since neither the hyphen nor a whitespace character
  is a word character. The result is the replacement (the two words) and the text after
  the match.
\<close>

definition hyphen_match :: "unicode_tables \<Rightarrow> ustring \<Rightarrow> (ustring \<times> ustring) option" where
  "hyphen_match U xs =
     (let w1 = takeWhile (is_word U) xs; r1 = dropWhile (is_word U) xs in
      if w1 = [] then None
      else (case r1 of
              a # b # r2 \<Rightarrow>
                if a = 45 \<and> b = 10 then
                  (let r3 = dropWhile is_space r2;
                       w2 = takeWhile (is_word U) r3;
                       r4 = dropWhile (is_word U) r3
                   in if w2 = [] then None else Some (w1 @ w2, r4))
                else None
            | _ \<Rightarrow> None))"

text \<open>
  The substitution scans from the left: where the pattern matches, the replacement is
  written and the scan goes on after the match; elsewhere one character is copied.
\<close>

function dehyphenate :: "unicode_tables \<Rightarrow> ustring \<Rightarrow> ustring" where
  "dehyphenate U [] = []"
| "dehyphenate U (x # rest) =
     (case hyphen_match U (x # rest) of
        Some (rep, r4) \<Rightarrow> rep @ dehyphenate U r4
      | None \<Rightarrow> x # dehyphenate U rest)"
  by pat_completeness auto
termination
proof (relation "measure (\<lambda>(U, xs). length xs)")
  show "wf (measure (\<lambda>(U :: unicode_tables, xs :: ustring). length xs))"
    by simp
next
  fix U :: unicode_tables and x rest y rep r4
  assume "hyphen_match U (x # rest) = Some y" and "(rep, r4) = y"
  then have m: "hyphen_match U (x # rest) = Some (rep, r4)"
    by simp
  have a: "length (dropWhile (is_word U) zs) \<le> length zs" for zs
    by (rule length_dropWhile_le)
  have b: "length (dropWhile is_space zs) \<le> length zs" for zs
    by (rule length_dropWhile_le)
  from m obtain a' b' r2 where
    r1: "dropWhile (is_word U) (x # rest) = a' # b' # r2" and
    r4: "r4 = dropWhile (is_word U) (dropWhile is_space r2)"
    by (auto simp: hyphen_match_def Let_def split: if_splits list.splits)
  have "length r4 \<le> length r2"
    unfolding r4 using a [of "dropWhile is_space r2"] b [of r2] by linarith
  moreover have "length r2 + 2 \<le> length (x # rest)"
    using a [of "x # rest"] unfolding r1 by simp
  ultimately have "length r4 < length (x # rest)"
    by linarith
  then show "((U, r4), (U, x # rest)) \<in> measure (\<lambda>(U, xs). length xs)"
    by simp
next
  fix U :: unicode_tables and x rest
  show "((U, rest), (U, x # rest)) \<in> measure (\<lambda>(U, xs). length xs)"
    by simp
qed

text \<open>\<open>re.sub(r'\s+', ' ', text)\<close>: every run of whitespace becomes one space.\<close>

function collapse_ws :: "ustring \<Rightarrow> ustring" where
  "collapse_ws [] = []"
| "collapse_ws (x # xs) =
     (if is_space x then 32 # collapse_ws (dropWhile is_space xs) else x # collapse_ws xs)"
  by pat_completeness auto
termination
  by (relation "measure length") (auto simp: length_dropWhile_le less_Suc_eq_le)

text \<open>
  \<open>_clean_text\<close>: the empty text stays empty; otherwise de-hyphenation, the no-break
  space U+00A0 replaced by a space, whitespace collapsed, both ends stripped.
\<close>

definition clean_text :: "unicode_tables \<Rightarrow> ustring \<Rightarrow> ustring" where
  "clean_text U text =
     (if text = [] then []
      else strip (collapse_ws (map (\<lambda>c. if c = 160 then 32 else c) (dehyphenate U text))))"

text \<open>
  The stop phrases of \<open>ignore_phrases\<close>, all in lower case: "all rights reserved",
  "publishing house", "contents" and "foreword" in Ukrainian, \<open>www.\<close>, \<open>http\<close>,
  \<open>isbn\<close>, two library classification marks (UDC, BBK) in Cyrillic letters, and the
  copyright sign U+00A9. The source keeps them in a set and asks whether any of them
  occurs in the text, so their order has no effect.
\<close>

definition ignore_phrases :: "ustring list" where
  "ignore_phrases =
     [[1074, 1089, 1110, 32, 1087, 1088, 1072, 1074, 1072, 32,
       1079, 1072, 1093, 1080, 1097, 1077, 1085, 1110],
      [1074, 1080, 1076, 1072, 1074, 1085, 1080, 1094, 1090, 1074, 1086],
      [1079, 1084, 1110, 1089, 1090],
      [1087, 1077, 1088, 1077, 1076, 1084, 1086, 1074, 1072],
      asc ''www.'', asc ''http'', asc ''isbn'',
      [1091, 1076, 1082], [1073, 1073, 1082], [169]]"

text \<open>\<open>_is_garbage\<close>.\<close>

definition is_garbage :: "unicode_tables \<Rightarrow> ustring \<Rightarrow> bool" where
  "is_garbage U text =
     (let text_lower = str_lower U text in
      if length text < 5 \<or> str_isdigit U text then True
      else list_ex (\<lambda>phrase. contains phrase text_lower) ignore_phrases)"

section \<open>Section and citation tracker (ingestion.py)\<close>

text \<open>
  The four heading patterns, each tried with \<open>re.match\<close> (at the start of the text
  only) and \<open>re.IGNORECASE\<close>. The first is the section sign U+00A7, at most one
  whitespace character and at least one decimal digit; no character is both whitespace
  and a digit, so the optional whitespace is taken whenever it is there. The other three
  are the words \<open>Rozdil\<close>, \<open>Hlava\<close> and \<open>Tema\<close> as a prefix, letter case ignored.
\<close>

definition match_section_sign :: "unicode_tables \<Rightarrow> ustring \<Rightarrow> bool" where
  "match_section_sign U text =
     (case text of
        [] \<Rightarrow> False
      | c # r \<Rightarrow>
          c = 167 \<and>
          (case r of
             [] \<Rightarrow> False
           | [a] \<Rightarrow> is_decimal U a
           | a # b # _ \<Rightarrow> (is_space a \<and> is_decimal U b) \<or> is_decimal U a))"

definition imatch_prefix :: "unicode_tables \<Rightarrow> ustring \<Rightarrow> ustring \<Rightarrow> bool" where
  "imatch_prefix U pat text \<longleftrightarrow>
     length pat \<le> length text \<and> list_all2 (ieq U) pat (take (length pat) text)"

definition patterns :: "unicode_tables \<Rightarrow> (ustring \<Rightarrow> bool) list" where
  "patterns U =
     [match_section_sign U, imatch_prefix U lit_Rozdil, imatch_prefix U lit_Hlava,
      imatch_prefix U lit_Tema]"

text \<open>\<open>_extract_citation_ref\<close>: the whole text when a pattern matches, else \<open>None\<close>.\<close>

definition extract_citation_ref :: "unicode_tables \<Rightarrow> ustring \<Rightarrow> ustring option" where
  "extract_citation_ref U text =
     (if list_ex (\<lambda>pat. pat text) (patterns U) then Some text else None)"

text \<open>
  A document as the loader returns it: the text of the page or element, and the two
  metadata entries the loop reads. An entry is \<open>None\<close> when the key is missing,
  \<open>Some None\<close> when it is there with the value \<open>None\<close>, and \<open>Some (Some n)\<close>
  when it holds the zero-based page number \<open>n\<close>.
\<close>

record raw_document =
  raw_content :: ustring
  md_page :: "int option option"
  md_page_number :: "int option option"

text \<open>\<open>doc.metadata.get('page', doc.metadata.get('page_number'))\<close>.\<close>

definition get_page_num :: "raw_document \<Rightarrow> int option" where
  "get_page_num doc =
     (case md_page doc of
        Some v \<Rightarrow> v
      | None \<Rightarrow> (case md_page_number doc of Some v \<Rightarrow> v | None \<Rightarrow> None))"

text \<open>The document that the loop emits, with its four metadata entries (the entry
  \<open>section\<close> is the field \<open>section_name\<close>).\<close>

record document =
  page_content :: ustring
  source :: ustring
  section_name :: ustring
  citation_ref :: ustring
  page_number :: "ustring option"

text \<open>The page suffix: comma, space, \<open>Stor.\<close>, space and the page number plus one.\<close>

definition page_info :: "int option \<Rightarrow> ustring" where
  "page_info page_num =
     (case page_num of
        Some n \<Rightarrow> asc '', '' @ lit_Stor @ asc ''. '' @ str_int (n + 1)
      | None \<Rightarrow> [])"

definition new_doc :: "ustring \<Rightarrow> ustring \<Rightarrow> ustring \<Rightarrow> ustring \<Rightarrow> int option \<Rightarrow> document" where
  "new_doc file_path current_section cit_ref content page_num =
     \<lparr>page_content =
        lit_Rozdil @ asc '': '' @ current_section @ [10] @ lit_Tekst @ asc '': '' @ content,
      source = file_path,
      section_name = current_section,
      citation_ref = cit_ref @ page_info page_num,
      page_number = (case page_num of Some n \<Rightarrow> Some (str_int (n + 1)) | None \<Rightarrow> None)\<rparr>"

text \<open>
  One turn of the loop of \<open>load_and_process\<close>, on the state it carries: the current
  section, the current citation reference and the documents emitted so far. A garbage
  fragment is skipped by \<open>continue\<close>. The test \<open>if ref_candidate\<close> is the truth value
  of an optional string: it holds for a string that is there and not empty.
\<close>

type_synonym tracker = "ustring \<times> ustring \<times> document list"

definition loop_body :: "unicode_tables \<Rightarrow> ustring \<Rightarrow> tracker \<Rightarrow> raw_document \<Rightarrow> tracker" where
  "loop_body U file_path st doc =
     (case st of (current_section, cit_ref, processed_docs) \<Rightarrow>
        (let content = clean_text U (raw_content doc);
             page_num = get_page_num doc
         in if is_garbage U content then (current_section, cit_ref, processed_docs)
            else
              (let ref_candidate = extract_citation_ref U content;
                   current_section' =
                     (case ref_candidate of
                        Some r \<Rightarrow> if r \<noteq> [] then r else current_section
                      | None \<Rightarrow> current_section);
                   cit_ref' =
                     (case ref_candidate of
                        Some r \<Rightarrow> if r \<noteq> [] then r else cit_ref
                      | None \<Rightarrow> cit_ref)
               in (current_section', cit_ref',
                   processed_docs @
                     [new_doc file_path current_section' cit_ref' content page_num]))))"

text \<open>
  The loop over the loaded documents, from the initial state. Loading the file (by an
  external loader chosen from the file extension) comes before it and splitting the
  emitted documents into chunks (by an external splitter) after it; the model takes the
  loaded documents as an argument and returns the documents handed to the splitter.
\<close>

definition initial_tracker :: tracker where
  "initial_tracker = (lit_Vstup, lit_Zahalnyi_kontekst, [])"

definition run_loop :: "unicode_tables \<Rightarrow> ustring \<Rightarrow> tracker \<Rightarrow> raw_document list \<Rightarrow> tracker" where
  "run_loop U file_path st raw_documents = foldl (loop_body U file_path) st raw_documents"

definition load_and_process :: "unicode_tables \<Rightarrow> ustring \<Rightarrow> raw_document list \<Rightarrow> document list" where
  "load_and_process U file_path raw_documents =
     snd (snd (run_loop U file_path initial_tracker raw_documents))"

section \<open>Citation parser (citation_handler.py)\<close>

text \<open>
  \<open>re.search(r'(.*),\s*(?:Stor\.?|Page|stor\.?)\s*(.*)', s, re.IGNORECASE)\<close>, the two
  Cyrillic words written here in Latin letters. The dot of the pattern matches every
  character but the line feed. After the comma: the longest run of whitespace (no
  whitespace character matches a letter, so none is given back), then the first
  alternative that matches; an alternative with \<open>\.?\<close> takes the full stop (U+002E)
  when it is there. What follows cannot fail: whitespace is skipped and the second group
  is the rest of the line.
\<close>

definition opt_dot :: "ustring \<Rightarrow> ustring" where
  "opt_dot r = (case r of [] \<Rightarrow> [] | c # r' \<Rightarrow> if c = 46 then r' else r)"

definition match_marker :: "unicode_tables \<Rightarrow> ustring \<Rightarrow> ustring option" where
  "match_marker U r =
     (if imatch_prefix U lit_Stor r then Some (opt_dot (drop 4 r))
      else if imatch_prefix U (asc ''Page'') r then Some (drop 4 r)
      else if imatch_prefix U lit_stor r then Some (opt_dot (drop 4 r))
      else None)"

definition after_comma :: "unicode_tables \<Rightarrow> ustring \<Rightarrow> ustring option" where
  "after_comma U r =
     (case match_marker U (dropWhile is_space r) of
        None \<Rightarrow> None
      | Some m \<Rightarrow> Some (takeWhile (\<lambda>c. c \<noteq> 10) (dropWhile is_space m)))"

text \<open>
  A match that starts at the head of \<open>xs\<close>: the first group is greedy, so the commas
  (U+002C) of the first line are tried from the last one to the first one.
\<close>

fun try_commas :: "unicode_tables \<Rightarrow> ustring \<Rightarrow> nat list \<Rightarrow> (ustring \<times> ustring) option" where
  "try_commas U xs [] = None"
| "try_commas U xs (j # js) =
     (if j < length xs \<and> xs ! j = 44 then
        (case after_comma U (drop (Suc j) xs) of
           Some g2 \<Rightarrow> Some (take j xs, g2)
         | None \<Rightarrow> try_commas U xs js)
      else try_commas U xs js)"

definition match_from :: "unicode_tables \<Rightarrow> ustring \<Rightarrow> (ustring \<times> ustring) option" where
  "match_from U xs = try_commas U xs (rev [0..<length (takeWhile (\<lambda>c. c \<noteq> 10) xs)])"

text \<open>\<open>re.search\<close> takes the leftmost start position at which the pattern matches.\<close>

fun search :: "unicode_tables \<Rightarrow> ustring \<Rightarrow> (ustring \<times> ustring) option" where
  "search U [] = match_from U []"
| "search U (x # xs) =
     (case match_from U (x # xs) of Some m \<Rightarrow> Some m | None \<Rightarrow> search U xs)"

text \<open>\<open>_parse_citation_string\<close>.\<close>

definition parse_citation_string :: "unicode_tables \<Rightarrow> ustring \<Rightarrow> ustring \<times> ustring option" where
  "parse_citation_string U citation_string =
     (case search U citation_string of
        Some (g1, g2) \<Rightarrow> (strip g1, Some (strip g2))
      | None \<Rightarrow> (citation_string, None))"

section \<open>Citation aggregator (citation_handler.py)\<close>

text \<open>
  \<open>_clean_filename\<close> is \<open>os.path.basename\<close>; on a POSIX system that is the part of the
  path after its last slash (U+002F).
\<close>

definition clean_filename :: "ustring \<Rightarrow> ustring" where
  "clean_filename path = rev (takeWhile (\<lambda>c. c \<noteq> 47) (rev path))"

text \<open>
  A retrieved chunk, reduced to the two metadata entries that the aggregator reads; an
  entry is \<open>None\<close> when the key is missing.
\<close>

record chunk =
  md_citation_ref :: "ustring option"
  md_source :: "ustring option"

text \<open>
  \<open>grouped_sources\<close> is a dictionary from (title, file name) to a set of page tokens.
  The dictionary is an association list in insertion order with one entry for a key. A
  set of pages is a list without repetitions, in insertion order: the order in which
  Python walks through a set is not specified, and it is felt only by page tokens that
  have the same sort key.
\<close>

type_synonym group_key = "ustring \<times> ustring"
type_synonym groups = "(group_key \<times> ustring list) list"

text \<open>
  The two statements of the first loop of \<open>process_sources\<close>: a key that is not in the
  dictionary yet gets the empty set, and a page is added to the set of its key.
\<close>

definition ensure_key :: "group_key \<Rightarrow> groups \<Rightarrow> groups" where
  "ensure_key key grouped = (if map_of grouped key = None then grouped @ [(key, [])] else grouped)"

definition add_page :: "group_key \<Rightarrow> ustring \<Rightarrow> groups \<Rightarrow> groups" where
  "add_page key page grouped =
     map (\<lambda>(k, pages). if k = key then (k, if page \<in> set pages then pages else pages @ [page])
                        else (k, pages)) grouped"

text \<open>
  The reference and the file name that the loop reads from a chunk, with their defaults,
  and from them the key and the page of the chunk.
\<close>

definition raw_ref_of :: "chunk \<Rightarrow> ustring" where
  "raw_ref_of doc = (case md_citation_ref doc of Some r \<Rightarrow> r | None \<Rightarrow> lit_Zahalnyi_kontekst)"

definition filename_of :: "chunk \<Rightarrow> ustring" where
  "filename_of doc =
     clean_filename (case md_source doc of Some f \<Rightarrow> f | None \<Rightarrow> lit_Nevidomyi_fail)"

definition chunk_key :: "unicode_tables \<Rightarrow> chunk \<Rightarrow> group_key" where
  "chunk_key U doc = (fst (parse_citation_string U (raw_ref_of doc)), filename_of doc)"

definition chunk_page :: "unicode_tables \<Rightarrow> chunk \<Rightarrow> ustring option" where
  "chunk_page U doc = snd (parse_citation_string U (raw_ref_of doc))"

text \<open>The body of the first loop; \<open>if page\<close> holds for a page that is there and not
  empty.\<close>

definition add_source :: "unicode_tables \<Rightarrow> groups \<Rightarrow> chunk \<Rightarrow> groups" where
  "add_source U grouped doc =
     (let key = chunk_key U doc;
          grouped1 = ensure_key key grouped
      in case chunk_page U doc of
           None \<Rightarrow> grouped1
         | Some page \<Rightarrow> if page \<noteq> [] then add_page key page grouped1 else grouped1)"

definition grouped_sources :: "unicode_tables \<Rightarrow> chunk list \<Rightarrow> groups" where
  "grouped_sources U docs = foldl (add_source U) [] docs"

text \<open>
  \<open>sorted(list(pages), key=lambda x: int(x) if x.isdigit() else str(x))\<close>. The keys
  are computed first, from left to right, and \<open>int\<close> may raise \<open>ValueError\<close>. Then
  the keys are compared with \<open><\<close>. Two integers compare by value and two strings
  lexicographically; an integer and a string do not compare, Python raises
  \<open>TypeError\<close>. With two or more items the sort compares each item with an earlier one,
  and the first item whose key is of the other kind meets only keys of the first kind, so
  the call raises as soon as both kinds are there. The sort is stable.
\<close>

datatype py_error = TypeError | ValueError | KeyError

datatype page_key = IntKey int | StrKey ustring

definition key_of_page :: "unicode_tables \<Rightarrow> ustring \<Rightarrow> py_error + page_key" where
  "key_of_page U x =
     (if str_isdigit U x then
        (case int_of_digits U x of Some n \<Rightarrow> Inr (IntKey n) | None \<Rightarrow> Inl ValueError)
      else Inr (StrKey x))"

fun keys_of_pages :: "unicode_tables \<Rightarrow> ustring list \<Rightarrow> py_error + page_key list" where
  "keys_of_pages U [] = Inr []"
| "keys_of_pages U (x # xs) =
     (case key_of_page U x of
        Inl e \<Rightarrow> Inl e
      | Inr k \<Rightarrow> (case keys_of_pages U xs of Inl e \<Rightarrow> Inl e | Inr ks \<Rightarrow> Inr (k # ks)))"

fun int_keys :: "page_key list \<Rightarrow> int list option" where
  "int_keys [] = Some []"
| "int_keys (IntKey n # ks) = (case int_keys ks of Some ns \<Rightarrow> Some (n # ns) | None \<Rightarrow> None)"
| "int_keys (StrKey s # ks) = None"

fun str_keys :: "page_key list \<Rightarrow> ustring list option" where
  "str_keys [] = Some []"
| "str_keys (StrKey s # ks) = (case str_keys ks of Some ss \<Rightarrow> Some (s # ss) | None \<Rightarrow> None)"
| "str_keys (IntKey n # ks) = None"

definition sorted_pages :: "unicode_tables \<Rightarrow> ustring list \<Rightarrow> py_error + ustring list" where
  "sorted_pages U pages =
     (case keys_of_pages U pages of
        Inl e \<Rightarrow> Inl e
      | Inr ks \<Rightarrow>
          (case int_keys ks of
             Some ns \<Rightarrow> Inr (map snd (sort_key fst (zip ns pages)))
           | None \<Rightarrow>
               (case str_keys ks of
                  Some ss \<Rightarrow> Inr (map snd (sort_key fst (zip ss pages)))
                | None \<Rightarrow> Inl TypeError)))"

text \<open>The body of the second loop: the line of one group.\<close>

definition render_line :: "unicode_tables \<Rightarrow> groups \<Rightarrow> group_key \<Rightarrow> py_error + ustring" where
  "render_line U grouped key =
     (case key of (title, filename) \<Rightarrow>
        (case map_of grouped (title, filename) of
           None \<Rightarrow> Inl KeyError
         | Some pages \<Rightarrow>
             if pages \<noteq> [] then
               (case sorted_pages U pages of
                  Inl e \<Rightarrow> Inl e
                | Inr sp \<Rightarrow>
                    Inr (title @ asc '' ('' @ lit_Stor @ asc ''. '' @ join (asc '', '') sp @
                         asc '') '' @ [em_dash] @ asc '' ['' @ filename @ asc '']''))
             else Inr (title @ asc '' '' @ [em_dash] @ asc '' ['' @ filename @ asc '']'')))"

fun render_lines :: "unicode_tables \<Rightarrow> groups \<Rightarrow> group_key list \<Rightarrow> py_error + ustring list" where
  "render_lines U grouped [] = Inr []"
| "render_lines U grouped (k # ks) =
     (case render_line U grouped k of
        Inl e \<Rightarrow> Inl e
      | Inr line \<Rightarrow>
          (case render_lines U grouped ks of Inl e \<Rightarrow> Inl e | Inr ls \<Rightarrow> Inr (line # ls)))"

text \<open>The keys sorted by (file name, title), and the numbered lines.\<close>

definition sorted_keys :: "groups \<Rightarrow> group_key list" where
  "sorted_keys grouped = sort_key (\<lambda>x. (snd x, fst x)) (map fst grouped)"

definition numbered :: "ustring list \<Rightarrow> ustring list" where
  "numbered output_lines =
     map (\<lambda>(i, line). str_nat i @ asc ''. '' @ line)
         (zip [1..<Suc (length output_lines)] output_lines)"

definition header :: ustring where
  "header = [10, 10] @ replicate 30 61 @ [10] @ lit_Dzherela @ asc '':'' @ [10]"

text \<open>\<open>process_sources\<close>: the citation block, or the exception that ends the call.\<close>

definition process_sources :: "unicode_tables \<Rightarrow> chunk list \<Rightarrow> py_error + ustring" where
  "process_sources U docs =
     (if docs = [] then Inr []
      else
        (let grouped = grouped_sources U docs in
         case render_lines U grouped (sorted_keys grouped) of
           Inl e \<Rightarrow> Inl e
         | Inr output_lines \<Rightarrow>
             if output_lines = [] then Inr []
             else Inr (header @ join [10] (numbered output_lines))))"

text \<open>\<open>merge\<close>: the answer followed by the citation block.\<close>

definition merge :: "unicode_tables \<Rightarrow> ustring \<Rightarrow> chunk list \<Rightarrow> py_error + ustring" where
  "merge U answer docs =
     (case process_sources U docs of
        Inl e \<Rightarrow> Inl e
      | Inr citations \<Rightarrow> Inr (answer @ citations))"

section \<open>The tables on ASCII and the Cyrillic letters of the source\<close>

text \<open>
  For evaluating the functions on concrete texts: the Unicode tables restricted to ASCII,
  the Cyrillic letters U+0400 to U+045F with U+0490 and U+0491, and the three
  superscript digits of Latin-1 (U+00B2, U+00B3, U+00B9: alphanumeric, and digits that
  are not decimal). On these characters (and on the section sign, the copyright sign, the
  no-break space and the em dash, which are neither letters nor digits) the entries are
  those of the Unicode database; every other character is entered as no letter and no
  digit. The concrete texts below use the covered characters only.
\<close>

definition lower_cp :: "nat \<Rightarrow> nat" where
  "lower_cp c =
     (if (65 \<le> c \<and> c \<le> 90) \<or> (1040 \<le> c \<and> c \<le> 1071) then c + 32
      else if 1024 \<le> c \<and> c \<le> 1039 then c + 80
      else if c = 1168 then 1169
      else c)"

definition basic_tables :: unicode_tables where
  "basic_tables =
     \<lparr>isalnum = (\<lambda>c. (48 \<le> c \<and> c \<le> 57) \<or> (65 \<le> c \<and> c \<le> 90) \<or> (97 \<le> c \<and> c \<le> 122) \<or>
                     (1024 \<le> c \<and> c \<le> 1119) \<or> c = 1168 \<or> c = 1169 \<or>
                     c = 178 \<or> c = 179 \<or> c = 185),
      digit_of = (\<lambda>c. if 48 \<le> c \<and> c \<le> 57 then Decimal (c - 48)
                      else if c = 178 \<or> c = 179 \<or> c = 185 then OtherDigit
                      else NotDigit),
      str_lower = map lower_cp,
      ieq = (\<lambda>p c. lower_cp c = lower_cp p)\<rparr>"

section \<open>Example documents\<close>

text \<open>
  Four loaded fragments for concrete runs of the loop: an introductory paragraph without
  a page number, a heading ("Rozdil 1. Basics") on the page with index 0, a paragraph
  whose page number is under the key \<open>page_number\<close>, and a fragment that starts with
  the heading word \<open>Tema\<close> and contains the stop phrase \<open>http\<close>.
\<close>

definition intro_text :: ustring where "intro_text = asc ''Some intro text''"
definition heading_text :: ustring where "heading_text = lit_Rozdil @ asc '' 1. Basics''"
definition body_text :: ustring where "body_text = asc ''Body text here''"
definition stop_text :: ustring where "stop_text = lit_Tema @ asc '' 2 http://x.org''"
definition ex_intro :: raw_document where
  "ex_intro = \<lparr>raw_content = intro_text, md_page = None, md_page_number = None\<rparr>"
definition ex_heading :: raw_document where
  "ex_heading = \<lparr>raw_content = heading_text, md_page = Some (Some 0), md_page_number = None\<rparr>"
definition ex_body :: raw_document where
  "ex_body = \<lparr>raw_content = body_text, md_page = None, md_page_number = Some (Some 1)\<rparr>"
definition ex_stop :: raw_document where
  "ex_stop = \<lparr>raw_content = stop_text, md_page = Some (Some 2), md_page_number = None\<rparr>"

text \<open>
  Retrieved chunks for concrete runs of the aggregator: two chunks of the same title and
  file with the page 5 (one reference as the tracker writes it, one with the English
  marker; one source with a directory, one without), two chunks of one title with the
  pages 5 and iv, two chunks of one title with the pages 12 and A-1 and no source, and a
  chunk whose page is the superscript two (U+00B2).
\<close>

definition same_a :: chunk where
  "same_a = \<lparr>md_citation_ref = Some (asc ''Chapter 3, '' @ lit_Stor @ asc ''. 5''),
             md_source = Some (asc ''/data/book.pdf'')\<rparr>"
definition same_b :: chunk where
  "same_b = \<lparr>md_citation_ref = Some (asc ''Chapter 3, Page 5''),
             md_source = Some (asc ''book.pdf'')\<rparr>"
definition mixed_a :: chunk where
  "mixed_a = \<lparr>md_citation_ref = Some (asc ''Preface, Page 5''),
              md_source = Some (asc ''book.pdf'')\<rparr>"
definition mixed_b :: chunk where
  "mixed_b = \<lparr>md_citation_ref = Some (asc ''Preface, Page iv''),
              md_source = Some (asc ''book.pdf'')\<rparr>"
definition appendix_a :: chunk where
  "appendix_a = \<lparr>md_citation_ref = Some (asc ''Tables, '' @ lit_Stor @ asc ''. 12''),
                 md_source = None\<rparr>"
definition appendix_b :: chunk where
  "appendix_b = \<lparr>md_citation_ref = Some (asc ''Tables, '' @ lit_stor @ asc ''. A-1''),
                 md_source = None\<rparr>"

definition superscript_page :: chunk where
  "superscript_page = \<lparr>md_citation_ref = Some (asc ''Notes, Page '' @ [178]),
                      md_source = Some (asc ''book.pdf'')\<rparr>"

text \<open>
  For stating what the dictionary holds: the pages of a key, and the page that a chunk
  adds to the set of its key, if any.
\<close>

definition pages_of :: "groups \<Rightarrow> group_key \<Rightarrow> ustring list" where
  "pages_of grouped key = (case map_of grouped key of Some pages \<Rightarrow> pages | None \<Rightarrow> [])"

definition new_pages :: "ustring option \<Rightarrow> ustring set" where
  "new_pages page = (case page of Some p \<Rightarrow> if p \<noteq> [] then {p} else {} | None \<Rightarrow> {})"

section \<open>The loop of the tracker\<close>

lemmas tbl = basic_tables_def lower_cp_def is_space_def is_word_def is_decimal_def str_isdigit_def

lemma is_garbage_iff:
  "is_garbage U t \<longleftrightarrow>
     length t < 5 \<or> str_isdigit U t \<or> list_ex (\<lambda>p. contains p (str_lower U t)) ignore_phrases"
  by (simp add: is_garbage_def Let_def)

lemma not_garbage_nonempty: "\<not> is_garbage U t \<Longrightarrow> t \<noteq> []"
  by (auto simp: is_garbage_iff)

lemma extract_citation_ref_cases:
  "extract_citation_ref U t = Some t \<or> extract_citation_ref U t = None"
  by (simp add: extract_citation_ref_def)

lemma loop_body_garbage:
  "is_garbage U (clean_text U (raw_content d)) \<Longrightarrow> loop_body U fp st d = st"
  by (cases st) (simp add: loop_body_def Let_def)

lemma loop_body_heading:
  assumes "\<not> is_garbage U (clean_text U (raw_content d))"
      and "extract_citation_ref U (clean_text U (raw_content d)) \<noteq> None"
  shows "loop_body U fp (cs, cr, out) d =
           (clean_text U (raw_content d), clean_text U (raw_content d),
            out @ [new_doc fp (clean_text U (raw_content d)) (clean_text U (raw_content d))
                     (clean_text U (raw_content d)) (get_page_num d)])"
proof -
  let ?c = "clean_text U (raw_content d)"
  have e: "extract_citation_ref U ?c = Some ?c"
    using assms(2) extract_citation_ref_cases [of U ?c] by auto
  have n: "?c \<noteq> []"
    using assms(1) by (rule not_garbage_nonempty)
  show ?thesis
    using assms(1) e n by (simp add: loop_body_def Let_def)
qed

lemma loop_body_plain:
  assumes "\<not> is_garbage U (clean_text U (raw_content d))"
      and "extract_citation_ref U (clean_text U (raw_content d)) = None"
  shows "loop_body U fp (cs, cr, out) d =
           (cs, cr, out @ [new_doc fp cs cr (clean_text U (raw_content d)) (get_page_num d)])"
  using assms by (simp add: loop_body_def Let_def)

lemma run_loop_Nil: "run_loop U fp st [] = st"
  by (simp add: run_loop_def)

lemma run_loop_Cons: "run_loop U fp st (d # ds) = run_loop U fp (loop_body U fp st d) ds"
  by (simp add: run_loop_def)

lemma run_loop_append: "run_loop U fp st (xs @ ys) = run_loop U fp (run_loop U fp st xs) ys"
  by (simp add: run_loop_def)

lemma run_loop_no_heading:
  assumes "\<forall>d\<in>set ds. is_garbage U (clean_text U (raw_content d)) \<or>
             extract_citation_ref U (clean_text U (raw_content d)) = None"
  shows "run_loop U fp (cs, cr, out) ds =
           (cs, cr, out @ map (\<lambda>d. new_doc fp cs cr (clean_text U (raw_content d)) (get_page_num d))
                           (filter (\<lambda>d. \<not> is_garbage U (clean_text U (raw_content d))) ds))"
  using assms
proof (induction ds arbitrary: out)
  case Nil
  show ?case by (simp add: run_loop_Nil)
next
  case (Cons d ds)
  show ?case
  proof (cases "is_garbage U (clean_text U (raw_content d))")
    case True
    with Cons show ?thesis
      by (simp add: run_loop_Cons loop_body_garbage)
  next
    case False
    with Cons.prems have "extract_citation_ref U (clean_text U (raw_content d)) = None"
      by simp
    with False Cons show ?thesis
      by (simp add: run_loop_Cons loop_body_plain)
  qed
qed

subsection \<open>The examples, evaluated\<close>

lemmas clean_defs = clean_text_def hyphen_match_def strip_def Let_def
lemmas garbage_defs = is_garbage_def ignore_phrases_def
lemmas extract_defs = extract_citation_ref_def patterns_def match_section_sign_def imatch_prefix_def
  lit_Rozdil_def lit_Hlava_def lit_Tema_def

lemma clean_ex_intro: "clean_text basic_tables (raw_content ex_intro) = intro_text"
  by (simp add: ex_intro_def intro_text_def clean_defs tbl)
lemma clean_ex_heading: "clean_text basic_tables (raw_content ex_heading) = heading_text"
  by (simp add: ex_heading_def heading_text_def clean_defs tbl lit_Rozdil_def)
lemma clean_ex_body: "clean_text basic_tables (raw_content ex_body) = body_text"
  by (simp add: ex_body_def body_text_def clean_defs tbl)
lemma clean_ex_stop: "clean_text basic_tables (raw_content ex_stop) = stop_text"
  by (simp add: ex_stop_def stop_text_def clean_defs tbl lit_Tema_def)

lemma garbage_ex_intro: "\<not> is_garbage basic_tables intro_text"
  by (simp add: intro_text_def garbage_defs tbl)
lemma garbage_ex_heading: "\<not> is_garbage basic_tables heading_text"
  by (simp add: heading_text_def garbage_defs tbl lit_Rozdil_def)
lemma garbage_ex_body: "\<not> is_garbage basic_tables body_text"
  by (simp add: body_text_def garbage_defs tbl)
lemma stop_text_has_phrase:
  "list_ex (\<lambda>phrase. contains phrase (str_lower basic_tables stop_text)) ignore_phrases"
  by (simp add: stop_text_def ignore_phrases_def tbl lit_Tema_def)

lemma extract_ex_intro: "extract_citation_ref basic_tables intro_text = None"
  by (simp add: intro_text_def extract_defs tbl)
lemma extract_ex_heading: "extract_citation_ref basic_tables heading_text = Some heading_text"
  by (simp add: heading_text_def extract_defs tbl)
lemma extract_ex_body: "extract_citation_ref basic_tables body_text = None"
  by (simp add: body_text_def extract_defs tbl)
lemma extract_ex_stop: "extract_citation_ref basic_tables stop_text = Some stop_text"
  by (simp add: stop_text_def extract_defs tbl)

lemma load_ex_intro:
  "load_and_process basic_tables fp [ex_intro] =
     [new_doc fp lit_Vstup lit_Zahalnyi_kontekst intro_text None]"
proof -
  have "get_page_num ex_intro = None"
    by (simp add: get_page_num_def ex_intro_def)
  then show ?thesis
    by (simp add: load_and_process_def run_loop_Cons run_loop_Nil initial_tracker_def
        loop_body_plain clean_ex_intro garbage_ex_intro extract_ex_intro)
qed

subsection \<open>Headings\<close>

text \<open>
  Claim C1. A fragment that is not garbage and matches a heading pattern sets the current
  section and the current citation reference to its own normalized text \<open>H\<close> before
  its document is emitted. So after any fragments \<open>pre\<close>, the heading \<open>h\<close> and
  fragments \<open>mid\<close> of which none is a retained heading, the state is \<open>(H, H)\<close> and
  the documents emitted for \<open>h\<close> and for the retained fragments of \<open>mid\<close> all have
  the section \<open>H\<close> and the citation reference \<open>H\<close> followed by their own page
  suffix.
\<close>

theorem heading_sets_context:
  assumes "\<not> is_garbage U (clean_text U (raw_content h))"
      and "extract_citation_ref U (clean_text U (raw_content h)) \<noteq> None"
      and "\<forall>d\<in>set mid. is_garbage U (clean_text U (raw_content d)) \<or>
             extract_citation_ref U (clean_text U (raw_content d)) = None"
  shows "(let H = clean_text U (raw_content h) in
          run_loop U fp st (pre @ h # mid) =
            (H, H, snd (snd (run_loop U fp st pre)) @
                   map (\<lambda>d. new_doc fp H H (clean_text U (raw_content d)) (get_page_num d))
                       (filter (\<lambda>d. \<not> is_garbage U (clean_text U (raw_content d))) (h # mid))) \<and>
          load_and_process U fp (pre @ h # mid) =
            load_and_process U fp pre @
            map (\<lambda>d. new_doc fp H H (clean_text U (raw_content d)) (get_page_num d))
                (filter (\<lambda>d. \<not> is_garbage U (clean_text U (raw_content d))) (h # mid)) \<and>
          (\<forall>content page_num.
             section_name (new_doc fp H H content page_num) = H \<and>
             citation_ref (new_doc fp H H content page_num) = H @ page_info page_num))"
proof -
  let ?H = "clean_text U (raw_content h)"
  have run: "run_loop U fp st' (pre @ h # mid) =
      (?H, ?H, snd (snd (run_loop U fp st' pre)) @
         map (\<lambda>d. new_doc fp ?H ?H (clean_text U (raw_content d)) (get_page_num d))
             (filter (\<lambda>d. \<not> is_garbage U (clean_text U (raw_content d))) (h # mid)))" for st'
  proof -
    obtain cs cr out where p: "run_loop U fp st' pre = (cs, cr, out)"
      by (cases "run_loop U fp st' pre") auto
    show ?thesis
      using assms(1)
      by (simp add: run_loop_append run_loop_Cons p loop_body_heading [OF assms(1,2)]
          run_loop_no_heading [OF assms(3)])
  qed
  show ?thesis
    by (simp add: Let_def run load_and_process_def new_doc_def)
qed


theorem heading_sets_context_witness:
  "\<not> is_garbage basic_tables (clean_text basic_tables (raw_content ex_heading)) \<and>
   extract_citation_ref basic_tables (clean_text basic_tables (raw_content ex_heading)) \<noteq> None \<and>
   extract_citation_ref basic_tables (clean_text basic_tables (raw_content ex_body)) = None \<and>
   map section_name
     (load_and_process basic_tables (asc ''book.pdf'') ([ex_intro] @ ex_heading # [ex_body])) =
     [lit_Vstup, heading_text, heading_text] \<and>
   map citation_ref
     (load_and_process basic_tables (asc ''book.pdf'') ([ex_intro] @ ex_heading # [ex_body])) =
     [lit_Zahalnyi_kontekst,
      heading_text @ asc '', '' @ lit_Stor @ asc ''. 1'',
      heading_text @ asc '', '' @ lit_Stor @ asc ''. 2'']"
proof -
  have a: "\<not> is_garbage basic_tables (clean_text basic_tables (raw_content ex_heading))"
    by (simp add: clean_ex_heading garbage_ex_heading)
  have b: "extract_citation_ref basic_tables (clean_text basic_tables (raw_content ex_heading)) \<noteq> None"
    by (simp add: clean_ex_heading extract_ex_heading)
  have c: "extract_citation_ref basic_tables (clean_text basic_tables (raw_content ex_body)) = None"
    by (simp add: clean_ex_body extract_ex_body)
  have d: "\<forall>d\<in>set [ex_body]. is_garbage basic_tables (clean_text basic_tables (raw_content d)) \<or>
             extract_citation_ref basic_tables (clean_text basic_tables (raw_content d)) = None"
    using c by simp
  have p: "get_page_num ex_heading = Some 0" "get_page_num ex_body = Some 1"
    by (simp_all add: get_page_num_def ex_heading_def ex_body_def)
  have s: "str_int 1 = asc ''1''" "str_int 2 = asc ''2''"
    by (simp_all add: str_int_def)
  show ?thesis
    using heading_sets_context [OF a b d, of "asc ''book.pdf''" initial_tracker "[ex_intro]"] a b c
    by (simp add: Let_def load_ex_intro clean_ex_heading clean_ex_body garbage_ex_heading
        garbage_ex_body new_doc_def page_info_def p s)
qed

subsection \<open>Garbage\<close>

text \<open>
  Claim C4. A fragment whose normalized text is shorter than five characters, or consists
  of digits only, or contains a stop phrase once it is put in lower case, is garbage: the
  turn of the loop leaves the state as it is (the current section, the current citation
  reference and the emitted documents), and the whole run is the run without that
  fragment. Nothing is assumed about the heading patterns; the fragment of the witness
  matches one.
\<close>

theorem garbage_is_dropped:
  assumes "length (clean_text U (raw_content d)) < 5 \<or>
           str_isdigit U (clean_text U (raw_content d)) \<or>
           list_ex (\<lambda>phrase. contains phrase (str_lower U (clean_text U (raw_content d))))
             ignore_phrases"
  shows "is_garbage U (clean_text U (raw_content d)) \<and>
         loop_body U fp st d = st \<and>
         run_loop U fp st (pre @ d # post) = run_loop U fp st (pre @ post) \<and>
         load_and_process U fp (pre @ d # post) = load_and_process U fp (pre @ post)"
proof -
  have g: "is_garbage U (clean_text U (raw_content d))"
    using assms by (simp add: is_garbage_iff)
  have "run_loop U fp st' (pre @ d # post) = run_loop U fp st' (pre @ post)" for st'
    by (simp add: run_loop_append run_loop_Cons loop_body_garbage [OF g])
  then show ?thesis
    using g by (simp add: loop_body_garbage load_and_process_def)
qed

theorem garbage_is_dropped_witness:
  "extract_citation_ref basic_tables (clean_text basic_tables (raw_content ex_stop)) \<noteq> None \<and>
   list_ex (\<lambda>phrase. contains phrase
              (str_lower basic_tables (clean_text basic_tables (raw_content ex_stop))))
     ignore_phrases \<and>
   loop_body basic_tables (asc ''book.pdf'') (lit_Vstup, lit_Zahalnyi_kontekst, []) ex_stop =
     (lit_Vstup, lit_Zahalnyi_kontekst, []) \<and>
   load_and_process basic_tables (asc ''book.pdf'') ([ex_intro] @ ex_stop # [ex_body]) =
     load_and_process basic_tables (asc ''book.pdf'') ([ex_intro] @ [ex_body])"
proof -
  have h: "list_ex (\<lambda>phrase. contains phrase
              (str_lower basic_tables (clean_text basic_tables (raw_content ex_stop))))
     ignore_phrases"
    by (simp add: clean_ex_stop stop_text_has_phrase)
  have e: "extract_citation_ref basic_tables (clean_text basic_tables (raw_content ex_stop)) \<noteq> None"
    by (simp add: clean_ex_stop extract_ex_stop)
  show ?thesis
    using garbage_is_dropped [of basic_tables ex_stop "asc ''book.pdf''"
        "(lit_Vstup, lit_Zahalnyi_kontekst, [])" "[ex_intro]" "[ex_body]",
        OF disjI2, OF disjI2, OF h] h e
    by simp
qed

subsection \<open>Page numbers\<close>



section \<open>The normalizer on hyphenated words\<close>

text \<open>
  A word, a hyphen, a line feed, any whitespace and a second word are joined into one word,
  for all tables in which no word character is whitespace or the hyphen: as a whole text,
  and at the head of any text whose remainder does not go on with a word character.
\<close>

lemma no_space_collapse: "\<forall>c\<in>set xs. \<not> is_space c \<Longrightarrow> collapse_ws xs = xs"
  by (induction xs) simp_all

lemma no_space_strip: "\<forall>c\<in>set xs. \<not> is_space c \<Longrightarrow> strip xs = xs"
proof (cases xs rule: rev_cases)
  case Nil
  then show ?thesis by (simp add: strip_def)
next
  case (snoc ys y)
  assume a: "\<forall>c\<in>set xs. \<not> is_space c"
  then have d: "dropWhile is_space xs = xs"
    by (cases xs) auto
  from a snoc have "dropWhile is_space (rev xs) = rev xs"
    by simp
  with d show ?thesis
    by (simp add: strip_def)
qed

lemma hyphen_match_joins:
  assumes sane: "\<forall>c. is_word U c \<longrightarrow> \<not> is_space c \<and> c \<noteq> 45"
      and w1: "w1 \<noteq> []" "list_all (is_word U) w1"
      and w2: "w2 \<noteq> []" "list_all (is_word U) w2"
      and sp: "list_all is_space sp"
      and rest: "rest = [] \<or> \<not> is_word U (hd rest)"
  shows "hyphen_match U (w1 @ [45, 10] @ sp @ w2 @ rest) = Some (w1 @ w2, rest)"
proof -
  have h: "\<not> is_word U 45"
    using sane by blast
  have t1: "takeWhile (is_word U) (w1 @ [45, 10] @ sp @ w2 @ rest) = w1"
    using w1(2) h by (simp add: takeWhile_append2 list_all_iff)
  have d1: "dropWhile (is_word U) (w1 @ [45, 10] @ sp @ w2 @ rest) = 45 # 10 # sp @ w2 @ rest"
    using w1(2) h by (simp add: dropWhile_append2 list_all_iff)
  from w2 obtain c w2' where c: "w2 = c # w2'" "is_word U c"
    by (cases w2) auto
  then have "\<not> is_space c"
    using sane by blast
  then have d2: "dropWhile is_space (sp @ w2 @ rest) = w2 @ rest"
    using sp c(1) by (simp add: dropWhile_append2 list_all_iff)
  have r: "takeWhile (is_word U) rest = []" "dropWhile (is_word U) rest = rest"
    using rest by (cases rest; simp)+
  have t2: "takeWhile (is_word U) (w2 @ rest) = w2"
    using w2(2) r by (simp add: takeWhile_append2 list_all_iff)
  have d3: "dropWhile (is_word U) (w2 @ rest) = rest"
    using w2(2) r by (simp add: dropWhile_append2 list_all_iff)
  show ?thesis
    unfolding hyphen_match_def Let_def t1 d1 using w1(1) w2(1)
    by (simp add: d2 t2 d3)
qed

lemma dehyphenate_joins_first_break:
  assumes "\<forall>c. is_word U c \<longrightarrow> \<not> is_space c \<and> c \<noteq> 45"
      and "w1 \<noteq> []" "list_all (is_word U) w1"
      and "w2 \<noteq> []" "list_all (is_word U) w2"
      and "list_all is_space sp"
      and "rest = [] \<or> \<not> is_word U (hd rest)"
  shows "dehyphenate U (w1 @ [45, 10] @ sp @ w2 @ rest) = w1 @ w2 @ dehyphenate U rest"
proof -
  from assms(2) obtain x xs where x: "w1 @ [45, 10] @ sp @ w2 @ rest = x # xs"
    by (cases w1) auto
  have "hyphen_match U (x # xs) = Some (w1 @ w2, rest)"
    using hyphen_match_joins [OF assms] unfolding x .
  then have "dehyphenate U (x # xs) = (w1 @ w2) @ dehyphenate U rest"
    by simp
  then show ?thesis
    unfolding x by simp
qed

lemma clean_text_joins_hyphenated_word:
  assumes "\<forall>c. is_word U c \<longrightarrow> \<not> is_space c \<and> c \<noteq> 45"
      and "w1 \<noteq> []" "list_all (is_word U) w1"
      and "w2 \<noteq> []" "list_all (is_word U) w2"
      and "list_all is_space sp"
  shows "clean_text U (w1 @ [45, 10] @ sp @ w2) = w1 @ w2"
proof -
  have d: "dehyphenate U (w1 @ [45, 10] @ sp @ w2) = w1 @ w2"
    using dehyphenate_joins_first_break [OF assms, of "[]"] by simp
  have ns: "\<forall>c\<in>set (w1 @ w2). \<not> is_space c"
    using assms(1,3,5) by (auto simp: list_all_iff)
  then have m: "map (\<lambda>c. if c = 160 then 32 else c) (w1 @ w2) = w1 @ w2"
    by (intro map_idI) (auto simp: is_space_def)
  have "clean_text U (w1 @ [45, 10] @ sp @ w2) =
      strip (collapse_ws (map (\<lambda>c. if c = 160 then 32 else c)
        (dehyphenate U (w1 @ [45, 10] @ sp @ w2))))"
    using assms(2) by (simp add: clean_text_def)
  also have "\<dots> = w1 @ w2"
    unfolding d m no_space_collapse [OF ns] no_space_strip [OF ns] by (rule refl)
  finally show ?thesis .
qed

lemma dehyphenation_example:
  "clean_text basic_tables (asc ''inter-'' @ [10] @ asc ''national'') = asc ''international''"
  by (simp add: clean_defs tbl)

text \<open>
  Claim C9. A word broken twice, "inter-", "natio-", "nal" on three lines: the first
  break is joined and the second is not. The pattern takes the continuation \<open>natio\<close>
  into its match, the search goes on after it, at the second hyphen, and there no word
  stands before the hyphen any more. The hyphen stays and the line feed becomes a space.
\<close>

theorem second_hyphenation_not_joined:
  "clean_text basic_tables (asc ''inter-'' @ [10] @ asc ''natio-'' @ [10] @ asc ''nal'') =
     asc ''internatio- nal''"
  by (simp add: clean_defs tbl)

section \<open>The citation parser on concrete references\<close>

lemmas parse_defs = parse_citation_string_def match_from_def after_comma_def match_marker_def
  imatch_prefix_def opt_dot_def strip_def lit_Stor_def lit_stor_def upt_rec

text \<open>
  The parser in general: a text without a comma is returned as it is, with no page. For a
  title without a line feed, a comma, whitespace, a marker of four characters and a rest
  without a comma or a line feed, the result is the stripped title and the stripped rest;
  after a marker that matches one of the Cyrillic words a leading full stop of the rest is
  dropped, after a marker that matches \<open>Page\<close> it is kept.
\<close>

lemma try_commas_skip:
  "\<forall>j\<in>set js1. j < length xs \<longrightarrow> xs ! j \<noteq> 44 \<Longrightarrow>
   try_commas U xs (js1 @ js2) = try_commas U xs js2"
  by (induction js1) auto

lemma try_commas_no_comma:
  assumes "44 \<notin> set xs"
  shows "try_commas U xs js = None"
proof -
  have "\<forall>j\<in>set js. j < length xs \<longrightarrow> xs ! j \<noteq> 44"
    using assms nth_mem by fastforce
  from try_commas_skip [OF this, of U "[]"] show ?thesis
    by simp
qed

lemma search_no_comma: "44 \<notin> set xs \<Longrightarrow> search U xs = None"
  by (induction xs) (simp_all add: match_from_def try_commas_no_comma)

lemma parse_without_comma: "44 \<notin> set s \<Longrightarrow> parse_citation_string U s = (s, None)"
  by (simp add: parse_citation_string_def search_no_comma)

lemma match_from_last_comma:
  assumes t: "10 \<notin> set t" and r: "44 \<notin> set r" and a: "after_comma U r = Some g2"
  shows "match_from U (t @ 44 # r) = Some (t, g2)"
proof -
  let ?xs = "t @ 44 # r"
  let ?n = "length (takeWhile (\<lambda>c. c \<noteq> 10) ?xs)"
  have "takeWhile (\<lambda>c. c \<noteq> 10) ?xs = t @ takeWhile (\<lambda>c. c \<noteq> 10) (44 # r)"
    by (rule takeWhile_append2) (use t in auto)
  then have n: "?n = Suc (length t) + length (takeWhile (\<lambda>c. c \<noteq> 10) r)"
    by simp
  have le: "?n \<le> length ?xs"
    by (rule length_takeWhile_le)
  have "[0..<length t + (?n - length t)] = [0..<length t] @ [length t..<length t + (?n - length t)]"
    by (rule upt_add_eq_append) simp
  moreover have "[length t..<?n] = length t # [Suc (length t)..<?n]"
    by (rule upt_conv_Cons) (simp add: n)
  ultimately have "[0..<?n] = [0..<length t] @ [length t] @ [Suc (length t)..<?n]"
    by (simp add: n)
  then have rv: "rev [0..<?n] = rev [Suc (length t)..<?n] @ length t # rev [0..<length t]"
    by simp
  have late: "\<forall>j\<in>set (rev [Suc (length t)..<?n]). j < length ?xs \<longrightarrow> ?xs ! j \<noteq> 44"
  proof (intro ballI impI)
    fix j
    assume j: "j \<in> set (rev [Suc (length t)..<?n])" and l: "j < length ?xs"
    then have "Suc (length t) \<le> j"
      by simp
    then have "?xs ! j = r ! (j - Suc (length t))"
      by (simp add: nth_append nth_Cons')
    moreover have "j - Suc (length t) < length r"
      using l \<open>Suc (length t) \<le> j\<close> by simp
    ultimately have "?xs ! j \<in> set r"
      by simp
    with r show "?xs ! j \<noteq> 44"
      by auto
  qed
  have "match_from U ?xs = try_commas U ?xs (length t # rev [0..<length t])"
    unfolding match_from_def rv by (rule try_commas_skip [OF late])
  also have "\<dots> = Some (t, g2)"
    using a by simp
  finally show ?thesis .
qed

lemma search_last_comma:
  assumes "10 \<notin> set t" and "44 \<notin> set r" and "after_comma U r = Some g2"
  shows "search U (t @ 44 # r) = Some (t, g2)"
proof -
  obtain x xs where x: "t @ 44 # r = x # xs"
    by (cases t) auto
  have "match_from U (x # xs) = Some (t, g2)"
    using match_from_last_comma [OF assms] unfolding x .
  then show ?thesis
    unfolding x by simp
qed

lemma imatch_prefix_exact:
  "length m = length pat \<Longrightarrow> imatch_prefix U pat (m @ q) \<longleftrightarrow> list_all2 (ieq U) pat m"
  by (simp add: imatch_prefix_def)

lemma strip_dropWhile: "strip (dropWhile is_space q) = strip q"
  by (simp add: strip_def)

lemma line_without_feed: "10 \<notin> set q \<Longrightarrow> takeWhile (\<lambda>c. c \<noteq> 10) q = q"
  by (induction q) auto

lemma after_comma_marker:
  assumes ws: "list_all is_space ws" and m: "length m = 4" "\<not> is_space (hd m)"
  shows "after_comma U (ws @ m @ q) =
     (if list_all2 (ieq U) lit_Stor m \<or> 
         (\<not> list_all2 (ieq U) (asc ''Page'') m \<and> list_all2 (ieq U) lit_stor m)
      then Some (takeWhile (\<lambda>c. c \<noteq> 10) (dropWhile is_space (opt_dot q)))
      else if list_all2 (ieq U) (asc ''Page'') m
      then Some (takeWhile (\<lambda>c. c \<noteq> 10) (dropWhile is_space q))
      else None)"
proof -
  from m obtain c m' where c: "m = c # m'" "\<not> is_space c"
    by (cases m) auto
  have d: "dropWhile is_space (ws @ m @ q) = m @ q"
    using ws c by (simp add: dropWhile_append2 list_all_iff)
  have i: "imatch_prefix U lit_Stor (m @ q) \<longleftrightarrow> list_all2 (ieq U) lit_Stor m"
    "imatch_prefix U lit_stor (m @ q) \<longleftrightarrow> list_all2 (ieq U) lit_stor m"
    "imatch_prefix U (asc ''Page'') (m @ q) \<longleftrightarrow> list_all2 (ieq U) (asc ''Page'') m"
    using m(1) by (simp_all add: imatch_prefix_def lit_Stor_def lit_stor_def)
  show ?thesis
    unfolding after_comma_def d match_marker_def i using m(1) by auto
qed

lemma parse_with_cyrillic_marker:
  assumes "10 \<notin> set t" and "list_all is_space ws"
      and "length m = 4" and "\<not> is_space (hd m)"
      and "list_all2 (ieq U) lit_Stor m \<or> list_all2 (ieq U) lit_stor m"
      and "\<not> list_all2 (ieq U) (asc ''Page'') m"
      and "44 \<notin> set (m @ q)" and "10 \<notin> set q"
  shows "parse_citation_string U (t @ [44] @ ws @ m @ q) = (strip t, Some (strip (opt_dot q)))"
proof -
  have nl: "10 \<notin> set (opt_dot q)"
    using assms(8) by (cases q) (auto simp: opt_dot_def)
  then have nl': "10 \<notin> set (dropWhile is_space (opt_dot q))"
    using set_dropWhileD by fast
  have "after_comma U (ws @ m @ q) =
      Some (takeWhile (\<lambda>c. c \<noteq> 10) (dropWhile is_space (opt_dot q)))"
    using assms(5,6) by (simp add: after_comma_marker [OF assms(2,3,4)])
  then have a: "after_comma U (ws @ m @ q) = Some (dropWhile is_space (opt_dot q))"
    by (simp add: line_without_feed [OF nl'])
  have c: "44 \<notin> set (ws @ m @ q)"
    using assms(2,7) by (auto simp: list_all_iff is_space_def)
  have "search U (t @ 44 # ws @ m @ q) = Some (t, dropWhile is_space (opt_dot q))"
    using assms(1) c a by (rule search_last_comma)
  then show ?thesis
    by (simp add: parse_citation_string_def strip_dropWhile)
qed

lemma parse_with_Page_marker:
  assumes "10 \<notin> set t" and "list_all is_space ws"
      and "length m = 4" and "\<not> is_space (hd m)"
      and "list_all2 (ieq U) (asc ''Page'') m"
      and "\<not> list_all2 (ieq U) lit_Stor m"
      and "44 \<notin> set (m @ q)" and "10 \<notin> set q"
  shows "parse_citation_string U (t @ [44] @ ws @ m @ q) = (strip t, Some (strip q))"
proof -
  have nl': "10 \<notin> set (dropWhile is_space q)"
    using assms(8) set_dropWhileD by fast
  have "after_comma U (ws @ m @ q) = Some (takeWhile (\<lambda>c. c \<noteq> 10) (dropWhile is_space q))"
    using assms(5,6) by (simp add: after_comma_marker [OF assms(2,3,4)])
  then have a: "after_comma U (ws @ m @ q) = Some (dropWhile is_space q)"
    by (simp add: line_without_feed [OF nl'])
  have c: "44 \<notin> set (ws @ m @ q)"
    using assms(2,7) by (auto simp: list_all_iff is_space_def)
  have "search U (t @ 44 # ws @ m @ q) = Some (t, dropWhile is_space q)"
    using assms(1) c a by (rule search_last_comma)
  then show ?thesis
    by (simp add: parse_citation_string_def strip_dropWhile)
qed

lemma parse_examples:
  "parse_citation_string basic_tables (asc ''Chapter 3, Page 12'') =
     (asc ''Chapter 3'', Some (asc ''12'')) \<and>
   parse_citation_string basic_tables (asc ''Chapter 3, '' @ lit_stor @ asc ''. 12'') =
     (asc ''Chapter 3'', Some (asc ''12'')) \<and>
   parse_citation_string basic_tables (asc ''Introduction'') = (asc ''Introduction'', None)"
  by (simp add: parse_defs tbl)

text \<open>
  Claim C3. The pattern has the optional full stop after the two Cyrillic alternatives
  and not after \<open>Page\<close>. So "Chapter 3, Page. 12" matches, and its page is ". 12"
  with the full stop, where the same reference with the Cyrillic marker and a full stop
  has the page "12".
\<close>

theorem full_stop_after_Page_is_kept:
  "parse_citation_string basic_tables (asc ''Chapter 3, Page. 12'') =
     (asc ''Chapter 3'', Some (asc ''. 12'')) \<and>
   parse_citation_string basic_tables (asc ''Chapter 3, '' @ lit_Stor @ asc ''. 12'') =
     (asc ''Chapter 3'', Some (asc ''12''))"
  by (simp add: parse_defs tbl)

section \<open>The aggregator\<close>

subsection \<open>Grouping\<close>

lemma map_fst_add_page: "map fst (add_page key p G) = map fst G"
  by (induction G) (auto simp: add_page_def)

lemma map_of_add_page:
  "map_of (add_page key p G) k =
     (if k = key then map_option (\<lambda>ps. if p \<in> set ps then ps else ps @ [p]) (map_of G k)
      else map_of G k)"
  by (induction G) (auto simp: add_page_def)

lemma map_of_ensure_key:
  "map_of (ensure_key key G) k = (if k = key then Some (pages_of G key) else map_of G k)"
proof (cases "map_of G key")
  case None
  have "map_of (G @ [(key, [])]) k = (if k = key then Some [] else map_of G k)"
    using None by (cases "map_of G k") (auto simp: map_add_def)
  with None show ?thesis
    by (simp add: pages_of_def ensure_key_def)
next
  case (Some ps)
  then show ?thesis
    by (simp add: pages_of_def ensure_key_def)
qed

lemma map_fst_ensure_key:
  "map fst (ensure_key key G) =
     (if key \<in> fst ` set G then map fst G else map fst G @ [key])"
  by (simp add: ensure_key_def map_of_eq_None_iff)

lemma map_fst_add_source:
  "map fst (add_source U G d) =
     (if chunk_key U d \<in> fst ` set G then map fst G else map fst G @ [chunk_key U d])"
  by (simp add: add_source_def Let_def map_fst_add_page map_fst_ensure_key
      split: option.splits)

lemma distinct_add_source:
  "distinct (map fst G) \<Longrightarrow> distinct (map fst (add_source U G d))"
  by (simp add: map_fst_add_source)

lemma keys_add_source: "fst ` set (add_source U G d) = insert (chunk_key U d) (fst ` set G)"
proof -
  have "fst ` set (add_source U G d) = set (map fst (add_source U G d))"
    by simp
  also have "\<dots> = insert (chunk_key U d) (fst ` set G)"
    by (cases "chunk_key U d \<in> fst ` set G") (simp_all add: map_fst_add_source insert_absorb)
  finally show ?thesis .
qed

lemma map_of_add_source:
  "map_of (add_source U G d) k =
     (if k = chunk_key U d then
        Some (case chunk_page U d of
                None \<Rightarrow> pages_of G k
              | Some p \<Rightarrow> if p \<noteq> [] \<and> p \<notin> set (pages_of G k) then pages_of G k @ [p]
                          else pages_of G k)
      else map_of G k)"
  by (simp add: add_source_def Let_def map_of_add_page map_of_ensure_key
      split: option.splits)

lemma pages_of_add_source:
  "set (pages_of (add_source U G d) k) =
     set (pages_of G k) \<union> (if k = chunk_key U d then new_pages (chunk_page U d) else {})"
  by (auto simp: pages_of_def map_of_add_source new_pages_def split: option.splits)

lemma distinct_pages_add_source:
  "distinct (pages_of G k) \<Longrightarrow> distinct (pages_of (add_source U G d) k)"
  by (auto simp: pages_of_def map_of_add_source split: option.splits)

lemma foldl_add_source_distinct:
  "distinct (map fst G) \<Longrightarrow> distinct (map fst (foldl (add_source U) G docs))"
  by (induction docs arbitrary: G) (simp_all add: distinct_add_source)

lemma foldl_add_source_keys:
  "fst ` set (foldl (add_source U) G docs) = fst ` set G \<union> chunk_key U ` set docs"
  by (induction docs arbitrary: G) (simp_all add: keys_add_source)

lemma foldl_add_source_pages:
  "set (pages_of (foldl (add_source U) G docs) k) =
     set (pages_of G k) \<union>
     {p. p \<noteq> [] \<and> (\<exists>d\<in>set docs. chunk_key U d = k \<and> chunk_page U d = Some p)}"
proof (induction docs arbitrary: G)
  case Nil
  show ?case by simp
next
  case (Cons d docs)
  show ?case
    unfolding foldl_Cons Cons.IH pages_of_add_source
    by (auto simp: new_pages_def split: option.splits if_splits)
qed

lemma foldl_add_source_distinct_pages:
  "distinct (pages_of G k) \<Longrightarrow> distinct (pages_of (foldl (add_source U) G docs) k)"
  by (induction docs arbitrary: G) (simp_all add: distinct_pages_add_source)

lemma one_group_for_key:
  "distinct (map fst G) \<Longrightarrow> k \<in> fst ` set G \<Longrightarrow> length (filter (\<lambda>g. fst g = k) G) = 1"
proof (induction G)
  case Nil
  then show ?case by simp
next
  case (Cons g G)
  show ?case
  proof (cases "fst g = k")
    case True
    with Cons.prems have "k \<notin> fst ` set G"
      by auto
    then have "filter (\<lambda>g. fst g = k) G = []"
      by (auto simp: filter_empty_conv)
    with True show ?thesis by simp
  next
    case False
    with Cons show ?thesis by auto
  qed
qed

subsection \<open>The examples, evaluated\<close>

lemmas agg_defs = process_sources_def grouped_sources_def add_source_def add_page_def
  ensure_key_def chunk_key_def chunk_page_def raw_ref_of_def filename_of_def clean_filename_def
  sorted_keys_def render_line_def sorted_pages_def key_of_page_def int_of_digits_def
  int_max_str_digits_def
  lit_Nevidomyi_fail_def Let_def

lemma key_same_a: "chunk_key basic_tables same_a = (asc ''Chapter 3'', asc ''book.pdf'')"
  by (simp add: same_a_def chunk_key_def raw_ref_of_def filename_of_def clean_filename_def
      parse_defs tbl)
lemma key_same_b: "chunk_key basic_tables same_b = (asc ''Chapter 3'', asc ''book.pdf'')"
  by (simp add: same_b_def chunk_key_def raw_ref_of_def filename_of_def clean_filename_def
      parse_defs tbl)
lemma page_same_a: "chunk_page basic_tables same_a = Some (asc ''5'')"
  by (simp add: same_a_def chunk_page_def raw_ref_of_def parse_defs tbl)
lemma page_same_b: "chunk_page basic_tables same_b = Some (asc ''5'')"
  by (simp add: same_b_def chunk_page_def raw_ref_of_def parse_defs tbl)

lemma grouped_same:
  "grouped_sources basic_tables [same_a, same_b] =
     [((asc ''Chapter 3'', asc ''book.pdf''), [asc ''5''])]"
  by (simp add: grouped_sources_def add_source_def Let_def key_same_a key_same_b page_same_a
      page_same_b ensure_key_def add_page_def)

lemma render_same:
  "process_sources basic_tables [same_a, same_b] =
     Inr (header @ asc ''1. Chapter 3 ('' @ lit_Stor @ asc ''. 5) '' @ [em_dash] @
          asc '' [book.pdf]'')"
proof -
  have "grouped_sources basic_tables [same_a, same_b] =
     [((asc ''Chapter 3'', asc ''book.pdf''), [asc ''5''])]"
    by (rule grouped_same)
  then show ?thesis
    by (simp add: process_sources_def Let_def sorted_keys_def render_line_def sorted_pages_def
        key_of_page_def int_of_digits_def int_max_str_digits_def numbered_def tbl)
qed

lemma mixed_raises:
  "process_sources basic_tables [mixed_a, mixed_b] = Inl TypeError"
  by (simp add: mixed_a_def mixed_b_def agg_defs parse_defs tbl)

lemma appendix_raises:
  "process_sources basic_tables [appendix_a, appendix_b] = Inl TypeError"
  by (simp add: appendix_a_def appendix_b_def agg_defs parse_defs tbl)

lemma appendix_groups:
  "grouped_sources basic_tables [appendix_a, appendix_b] =
     [((asc ''Tables'', lit_Nevidomyi_fail), [asc ''12'', asc ''A-1''])]"
  by (simp add: appendix_a_def appendix_b_def agg_defs parse_defs tbl)

text \<open>
  Claim C5. Two chunks of a list whose references parse to the same title and whose
  sources have the same file name have the same key; the dictionary holds exactly one
  group for that key, and the pages of the group are a list without repetitions of
  exactly the non-empty pages that the chunks of that key carry. The two example chunks
  with the page 5 give one line, with the page once.
\<close>

theorem same_title_and_file_one_group:
  assumes "d1 \<in> set docs" and "d2 \<in> set docs"
      and "fst (parse_citation_string U (raw_ref_of d1)) =
           fst (parse_citation_string U (raw_ref_of d2))"
      and "filename_of d1 = filename_of d2"
  shows "chunk_key U d2 = chunk_key U d1 \<and>
         length (filter (\<lambda>g. fst g = chunk_key U d1) (grouped_sources U docs)) = 1 \<and>
         (\<exists>pages. map_of (grouped_sources U docs) (chunk_key U d1) = Some pages \<and>
            distinct pages \<and>
            set pages = {p. p \<noteq> [] \<and>
              (\<exists>d\<in>set docs. chunk_key U d = chunk_key U d1 \<and> chunk_page U d = Some p)}) \<and>
         process_sources basic_tables [same_a, same_b] =
           Inr (header @ asc ''1. Chapter 3 ('' @ lit_Stor @ asc ''. 5) '' @ [em_dash] @
                asc '' [book.pdf]'')"
proof -
  let ?G = "grouped_sources U docs" and ?k = "chunk_key U d1"
  have k: "chunk_key U d2 = ?k"
    using assms(3,4) by (simp add: chunk_key_def)
  have dist: "distinct (map fst ?G)"
    unfolding grouped_sources_def by (rule foldl_add_source_distinct) simp
  have mem: "?k \<in> fst ` set ?G"
    unfolding grouped_sources_def foldl_add_source_keys using assms(1) by simp
  have one: "length (filter (\<lambda>g. fst g = ?k) ?G) = 1"
    using dist mem by (rule one_group_for_key)
  from mem obtain pages where p: "map_of ?G ?k = Some pages"
    by (cases "map_of ?G ?k") (auto simp: map_of_eq_None_iff)
  then have po: "pages_of ?G ?k = pages"
    by (simp add: pages_of_def)
  have "distinct (pages_of ?G ?k)"
    unfolding grouped_sources_def
    by (rule foldl_add_source_distinct_pages) (simp add: pages_of_def)
  moreover have "set (pages_of ?G ?k) =
      {p. p \<noteq> [] \<and> (\<exists>d\<in>set docs. chunk_key U d = ?k \<and> chunk_page U d = Some p)}"
    unfolding grouped_sources_def foldl_add_source_pages by (simp add: pages_of_def)
  ultimately show ?thesis
    using k one p po render_same by auto
qed

theorem same_title_and_file_one_group_witness:
  "same_a \<in> set [same_a, same_b] \<and> same_b \<in> set [same_a, same_b] \<and>
   fst (parse_citation_string basic_tables (raw_ref_of same_a)) =
     fst (parse_citation_string basic_tables (raw_ref_of same_b)) \<and>
   filename_of same_a = filename_of same_b \<and>
   length (filter (\<lambda>g. fst g = (asc ''Chapter 3'', asc ''book.pdf''))
             (grouped_sources basic_tables [same_a, same_b])) = 1 \<and>
   map_of (grouped_sources basic_tables [same_a, same_b]) (asc ''Chapter 3'', asc ''book.pdf'') =
     Some [asc ''5'']"
proof -
  have t: "fst (parse_citation_string basic_tables (raw_ref_of same_a)) =
      fst (parse_citation_string basic_tables (raw_ref_of same_b))"
    using key_same_a key_same_b by (simp add: chunk_key_def)
  have f: "filename_of same_a = filename_of same_b"
    using key_same_a key_same_b by (simp add: chunk_key_def)
  have m: "same_a \<in> set [same_a, same_b]" "same_b \<in> set [same_a, same_b]"
    by simp_all
  have g: "map_of (grouped_sources basic_tables [same_a, same_b])
      (asc ''Chapter 3'', asc ''book.pdf'') = Some [asc ''5'']"
    by (simp add: grouped_same)
  show ?thesis
    using same_title_and_file_one_group [OF m t f] t f g
    by (simp add: key_same_a)
qed

subsection \<open>Sorting the pages\<close>

lemma foldl_digits_Some:
  "list_all (is_decimal U) p \<Longrightarrow>
   \<exists>n. foldl (\<lambda>acc c. case acc of None \<Rightarrow> None
                     | Some a \<Rightarrow> (case digit_of U c of Decimal d \<Rightarrow> Some (10 * a + int d)
                                  | _ \<Rightarrow> None)) (Some a) p = Some n"
proof (induction p arbitrary: a)
  case Nil
  show ?case by simp
next
  case (Cons c p)
  from Cons.prems obtain d where d: "digit_of U c = Decimal d"
    by (auto simp: is_decimal_def split: digit_class.splits)
  from Cons.prems have "list_all (is_decimal U) p"
    by simp
  from Cons.IH [OF this, of "10 * a + int d"] show ?case
    by (simp add: d)
qed

lemma int_of_digits_decimal:
  assumes "length p \<le> int_max_str_digits" and "list_all (is_decimal U) p"
  shows "\<exists>n. int_of_digits U p = Some n"
  using assms(1) foldl_digits_Some [OF assms(2), of 0] by (simp add: int_of_digits_def)

lemma str_isdigit_decimal:
  "p \<noteq> [] \<Longrightarrow> list_all (is_decimal U) p \<Longrightarrow> str_isdigit U p"
  by (auto simp: str_isdigit_def list_all_iff is_decimal_def split: digit_class.splits)

lemma keys_of_numeric_pages:
  assumes "\<forall>p\<in>set pages.
             p \<noteq> [] \<and> length p \<le> int_max_str_digits \<and> list_all (is_decimal U) p"
  shows "\<exists>ns. keys_of_pages U pages = Inr (map IntKey ns) \<and>
              map (int_of_digits U) pages = map Some ns"
  using assms
proof (induction pages)
  case Nil
  show ?case by simp
next
  case (Cons p pages)
  from Cons.prems have p: "p \<noteq> []" "list_all (is_decimal U) p"
    and l: "length p \<le> int_max_str_digits"
    by simp_all
  from int_of_digits_decimal [OF l p(2)] obtain n where n: "int_of_digits U p = Some n"
    by blast
  from Cons obtain ns where ns: "keys_of_pages U pages = Inr (map IntKey ns)"
      "map (int_of_digits U) pages = map Some ns"
    by auto
  have "keys_of_pages U (p # pages) = Inr (map IntKey (n # ns))"
    by (simp add: key_of_page_def str_isdigit_decimal [OF p] n ns)
  moreover have "map (int_of_digits U) (p # pages) = map Some (n # ns)"
    by (simp add: n ns)
  ultimately show ?case by blast
qed

lemma int_keys_IntKey: "int_keys (map IntKey ns) = Some ns"
  by (induction ns) simp_all

lemma zip_keys_agree:
  assumes "map f pages = map Some ns" and "(n, p) \<in> set (zip ns pages)"
  shows "f p = Some n"
proof -
  from assms(2) obtain i where i: "i < length ns" "i < length pages" "ns ! i = n" "pages ! i = p"
    by (auto simp: in_set_zip)
  have "map f pages ! i = map Some ns ! i"
    by (simp add: assms(1))
  with i show ?thesis by simp
qed

text \<open>
  Page tokens that are decimal numbers within the bound of the conversion are sorted by
  their value: the sort returns the same tokens (as a multiset), and their integer values
  are in ascending order. The set of the tokens 10, 2 and 9 comes out as 2, 9, 10; as
  strings the three tokens are in the order 10, 2, 9.
\<close>

lemma decimal_pages_sorted_by_value:
  assumes "\<forall>p\<in>set pages.
             p \<noteq> [] \<and> length p \<le> int_max_str_digits \<and> list_all (is_decimal U) p"
  shows "\<exists>ys ns. sorted_pages U pages = Inr ys \<and> mset ys = mset pages \<and>
           map (int_of_digits U) ys = map Some ns \<and> sorted ns"
proof -
  from keys_of_numeric_pages [OF assms] obtain ns where
    k: "keys_of_pages U pages = Inr (map IntKey ns)" and
    m: "map (int_of_digits U) pages = map Some ns"
    by blast
  have len: "length ns = length pages"
    using arg_cong [OF m, of length] by simp
  let ?zs = "sort_key fst (zip ns pages)"
  have r: "sorted_pages U pages = Inr (map snd ?zs)"
    by (simp add: sorted_pages_def k int_keys_IntKey)
  have "mset (map snd ?zs) = image_mset snd (mset (zip ns pages))"
    by simp
  also have "\<dots> = mset (map snd (zip ns pages))"
    by simp
  also have "\<dots> = mset pages"
    using len by simp
  finally have ms: "mset (map snd ?zs) = mset pages" .
  have "map (int_of_digits U) (map snd ?zs) = map Some (map fst ?zs)"
  proof -
    have "int_of_digits U (snd z) = Some (fst z)" if "z \<in> set ?zs" for z
    proof -
      from that have "(fst z, snd z) \<in> set (zip ns pages)"
        by simp
      then show ?thesis
        by (rule zip_keys_agree [OF m])
    qed
    then show ?thesis
      by simp
  qed
  moreover have "sorted (map fst ?zs)"
    by (rule sorted_sort_key)
  ultimately show ?thesis
    using r ms by blast
qed

lemma sorted_pages_example:
  "sorted_pages basic_tables [asc ''10'', asc ''2'', asc ''9''] =
     Inr [asc ''2'', asc ''9'', asc ''10''] \<and>
   map (int_of_digits basic_tables) [asc ''2'', asc ''9'', asc ''10''] = [Some 2, Some 9, Some 10] \<and>
   sort [asc ''10'', asc ''2'', asc ''9''] = [asc ''10'', asc ''2'', asc ''9'']"
  by (simp add: sorted_pages_def key_of_page_def int_of_digits_def int_max_str_digits_def tbl)

text \<open>
  A token of more digits than the conversion takes passes \<open>isdigit\<close> as well, and
  its key is not computed.
\<close>

lemma long_token_raises:
  "str_isdigit basic_tables (replicate 4301 49) \<and>
   sorted_pages basic_tables [replicate 4301 49] = Inl ValueError"
proof -
  have d: "str_isdigit basic_tables (replicate 4301 49)"
    by (simp add: str_isdigit_def list_all_iff basic_tables_def)
  have "int_of_digits basic_tables (replicate 4301 49) = None"
    by (simp add: int_of_digits_def int_max_str_digits_def)
  with d show ?thesis
    by (simp add: sorted_pages_def key_of_page_def)
qed

lemma superscript_page_parsed:
  "chunk_key basic_tables superscript_page = (asc ''Notes'', asc ''book.pdf'') \<and>
   chunk_page basic_tables superscript_page = Some [178]"
  by (simp add: superscript_page_def chunk_key_def chunk_page_def raw_ref_of_def filename_of_def
      clean_filename_def parse_defs tbl)

lemma superscript_page_raises:
  "process_sources basic_tables [superscript_page] = Inl ValueError"
  by (simp add: superscript_page_def agg_defs parse_defs tbl)

text \<open>
  Claim C7. The test of the sort key for a numeric token is \<open>isdigit\<close>. The page
  token that is the superscript two (U+00B2) consists of a digit only and passes the test,
  but it has no integer value: \<open>int\<close> raises \<open>ValueError\<close>. The page set with
  this one token is not sorted by integer value, the sort ends with the exception, and so
  does \<open>process_sources\<close> for a chunk with this page.
\<close>

theorem digit_token_without_value_raises:
  "str_isdigit basic_tables [178] \<and>
   int_of_digits basic_tables [178] = None \<and>
   sorted_pages basic_tables [[178]] = Inl ValueError \<and>
   grouped_sources basic_tables [superscript_page] =
     [((asc ''Notes'', asc ''book.pdf''), [[178]])] \<and>
   process_sources basic_tables [superscript_page] = Inl ValueError"
proof -
  have "str_isdigit basic_tables [178]"
    by (simp add: tbl)
  moreover have "int_of_digits basic_tables [178] = None"
    by (simp add: int_of_digits_def int_max_str_digits_def tbl)
  moreover have "sorted_pages basic_tables [[178]] = Inl ValueError"
    by (simp add: sorted_pages_def key_of_page_def int_of_digits_def int_max_str_digits_def tbl)
  moreover have "grouped_sources basic_tables [superscript_page] =
      [((asc ''Notes'', asc ''book.pdf''), [[178]])]"
    using superscript_page_parsed
    by (simp add: grouped_sources_def add_source_def Let_def ensure_key_def add_page_def)
  ultimately show ?thesis
    using superscript_page_raises by simp
qed

lemma keys_of_pages_member:
  "keys_of_pages U xs = Inr ks \<Longrightarrow> x \<in> set xs \<Longrightarrow> \<exists>k\<in>set ks. key_of_page U x = Inr k"
  by (induction xs arbitrary: ks) (auto split: sum.splits)

lemma int_keys_Some: "int_keys ks = Some ns \<Longrightarrow> ks = map IntKey ns"
  by (induction ks arbitrary: ns rule: int_keys.induct) (auto split: option.splits)

lemma str_keys_Some: "str_keys ks = Some ss \<Longrightarrow> ks = map StrKey ss"
  by (induction ks arbitrary: ss rule: str_keys.induct) (auto split: option.splits)

lemma key_of_digit_page:
  "str_isdigit U p \<Longrightarrow> key_of_page U p = Inr k \<Longrightarrow> \<exists>n. k = IntKey n"
  by (auto simp: key_of_page_def split: option.splits)

lemma key_of_other_page:
  "\<not> str_isdigit U q \<Longrightarrow> key_of_page U q = Inr k \<Longrightarrow> k = StrKey q"
  by (auto simp: key_of_page_def)

lemma mixed_pages_never_sort:
  assumes "p \<in> set pages" and "q \<in> set pages"
      and "str_isdigit U p" and "\<not> str_isdigit U q"
  shows "\<exists>e. sorted_pages U pages = Inl e"
proof (cases "keys_of_pages U pages")
  case (Inl e)
  then show ?thesis
    by (simp add: sorted_pages_def)
next
  case (Inr ks)
  from keys_of_pages_member [OF Inr assms(1)] obtain kp where
    kp: "kp \<in> set ks" "key_of_page U p = Inr kp"
    by blast
  from keys_of_pages_member [OF Inr assms(2)] obtain kq where
    kq: "kq \<in> set ks" "key_of_page U q = Inr kq"
    by blast
  from key_of_digit_page [OF assms(3) kp(2)] obtain n where n: "kp = IntKey n"
    by blast
  have q: "kq = StrKey q"
    using assms(4) kq(2) by (rule key_of_other_page)
  have "int_keys ks = None"
  proof (cases "int_keys ks")
    case (Some ns)
    from int_keys_Some [OF this] kq(1) q show ?thesis by auto
  qed simp
  moreover have "str_keys ks = None"
  proof (cases "str_keys ks")
    case (Some ss)
    from str_keys_Some [OF this] kp(1) n show ?thesis by auto
  qed simp
  ultimately have "sorted_pages U pages = Inl TypeError"
    by (simp add: sorted_pages_def Inr)
  then show ?thesis by blast
qed

text \<open>
  Claim C2. A page set with the numeric token 5 and the token iv: the keys are the
  integer 5 and the string "iv", their comparison raises \<open>TypeError\<close> in
  either order of the two tokens, and the exception ends \<open>process_sources\<close> for two
  chunks of one title with these pages. (By \<open>mixed_pages_never_sort\<close> no page set
  with a numeric and a non-numeric token is sorted.)
\<close>

theorem mixed_page_set_raises:
  "sorted_pages basic_tables [asc ''5'', asc ''iv''] = Inl TypeError \<and>
   sorted_pages basic_tables [asc ''iv'', asc ''5''] = Inl TypeError \<and>
   process_sources basic_tables [mixed_a, mixed_b] = Inl TypeError"
proof -
  have "sorted_pages basic_tables [asc ''5'', asc ''iv''] = Inl TypeError"
    by (simp add: sorted_pages_def key_of_page_def int_of_digits_def int_max_str_digits_def tbl)
  moreover have "sorted_pages basic_tables [asc ''iv'', asc ''5''] = Inl TypeError"
    by (simp add: sorted_pages_def key_of_page_def int_of_digits_def int_max_str_digits_def tbl)
  ultimately show ?thesis
    using mixed_raises by simp
qed

subsection \<open>The citation block\<close>

lemma render_lines_length:
  "render_lines U G ks = Inr ls \<Longrightarrow> length ls = length ks"
  by (induction ks arbitrary: ls) (auto split: sum.splits)

lemma grouped_sources_nonempty: "docs \<noteq> [] \<Longrightarrow> grouped_sources U docs \<noteq> []"
proof
  assume d: "docs \<noteq> []" and e: "grouped_sources U docs = []"
  have "fst ` set (grouped_sources U docs) = chunk_key U ` set docs"
    unfolding grouped_sources_def foldl_add_source_keys by simp
  with e have "chunk_key U ` set docs = {}"
    by simp
  with d show False
    by simp
qed

lemma process_sources_returns_block:
  assumes "docs \<noteq> []" and "process_sources U docs = Inr s"
  shows "\<exists>output_lines. length output_lines = length (grouped_sources U docs) \<and>
           output_lines \<noteq> [] \<and> s = header @ join [10] (numbered output_lines)"
proof -
  let ?G = "grouped_sources U docs"
  from assms obtain ls where ls: "render_lines U ?G (sorted_keys ?G) = Inr ls"
    by (auto simp: process_sources_def Let_def split: sum.splits)
  have len: "length ls = length ?G"
    using render_lines_length [OF ls] by (simp add: sorted_keys_def)
  with grouped_sources_nonempty [OF assms(1)] have ne: "ls \<noteq> []"
    by auto
  with assms ls have "s = header @ join [10] (numbered ls)"
    by (simp add: process_sources_def Let_def)
  with len ne show ?thesis by blast
qed

lemma process_sources_never_empty: "docs \<noteq> [] \<Longrightarrow> process_sources U docs \<noteq> Inr []"
proof
  assume "docs \<noteq> []" and "process_sources U docs = Inr []"
  from process_sources_returns_block [OF this] show False
    by (auto simp: header_def)
qed

lemma numeric_pages_sort:
  assumes "\<forall>p\<in>set pages.
             p \<noteq> [] \<and> length p \<le> int_max_str_digits \<and> list_all (is_decimal U) p"
  shows "\<exists>ys. sorted_pages U pages = Inr ys"
proof -
  from keys_of_numeric_pages [OF assms] obtain ns where
    "keys_of_pages U pages = Inr (map IntKey ns)"
    by blast
  then show ?thesis
    by (simp add: sorted_pages_def int_keys_IntKey)
qed

lemma render_lines_total:
  "\<forall>k\<in>set ks. \<exists>line. render_line U G k = Inr line \<Longrightarrow> \<exists>ls. render_lines U G ks = Inr ls"
  by (induction ks) (auto split: sum.splits)

lemma process_sources_returns_on_numeric_pages:
  assumes "\<forall>d\<in>set docs. \<forall>p. chunk_page U d = Some p \<longrightarrow> p \<noteq> [] \<longrightarrow>
             length p \<le> int_max_str_digits \<and> list_all (is_decimal U) p"
  shows "\<exists>s. process_sources U docs = Inr s"
proof (cases "docs = []")
  case True
  then show ?thesis
    by (simp add: process_sources_def)
next
  case False
  let ?G = "grouped_sources U docs"
  have "\<exists>line. render_line U ?G k = Inr line" if "k \<in> set (sorted_keys ?G)" for k
  proof -
    from that have "k \<in> fst ` set ?G"
      by (simp add: sorted_keys_def)
    then obtain pages where p: "map_of ?G k = Some pages"
      by (cases "map_of ?G k") (auto simp: map_of_eq_None_iff)
    then have "set pages = set (pages_of ?G k)"
      by (simp add: pages_of_def)
    also have "\<dots> = {p. p \<noteq> [] \<and> (\<exists>d\<in>set docs. chunk_key U d = k \<and> chunk_page U d = Some p)}"
      unfolding grouped_sources_def foldl_add_source_pages by (simp add: pages_of_def)
    finally have "\<forall>p\<in>set pages.
        p \<noteq> [] \<and> length p \<le> int_max_str_digits \<and> list_all (is_decimal U) p"
      using assms by auto
    from numeric_pages_sort [OF this] obtain ys where "sorted_pages U pages = Inr ys"
      by blast
    with p show ?thesis
      by (cases k) (simp add: render_line_def)
  qed
  then have "\<exists>ls. render_lines U ?G (sorted_keys ?G) = Inr ls"
    by (intro render_lines_total) blast
  then show ?thesis
    by (auto simp: process_sources_def Let_def)
qed

text \<open>
  Claim C10. The list of the two chunks with the pages 12 and A-1 is not empty and has
  one group, with both pages; the call does not return a citation block, it ends with
  \<open>TypeError\<close> from the sort of the pages. (When the call returns, for a list that
  is not empty, it returns the block: \<open>process_sources_returns_block\<close>; and it
  returns whenever all pages are decimal numbers within the bound of the conversion:
  \<open>process_sources_returns_on_numeric_pages\<close>.)
\<close>

theorem nonempty_chunks_without_block:
  "[appendix_a, appendix_b] \<noteq> [] \<and>
   grouped_sources basic_tables [appendix_a, appendix_b] =
     [((asc ''Tables'', lit_Nevidomyi_fail), [asc ''12'', asc ''A-1''])] \<and>
   process_sources basic_tables [appendix_a, appendix_b] = Inl TypeError"
  using appendix_groups appendix_raises by simp

section \<open>Merging the answer with the citation block\<close>

lemma process_sources_empty: "process_sources U [] = Inr []"
  by (simp add: process_sources_def)

text \<open>
  Claim C6. For every answer and every list of chunks, \<open>merge\<close> is the answer followed
  by the result of the aggregator (and it raises what the aggregator raises). For the
  empty list the aggregator returns the empty string, so \<open>merge\<close> returns the answer
  itself: for the answer "Answer text" exactly that text, with nothing after it.
\<close>

theorem merge_is_answer_then_citations:
  "merge U answer docs = map_sum id (\<lambda>citations. answer @ citations) (process_sources U docs) \<and>
   process_sources U [] = Inr [] \<and>
   merge U answer [] = Inr answer \<and>
   merge U (asc ''Answer text'') [] = Inr (asc ''Answer text'')"
  by (simp add: merge_def process_sources_empty split: sum.splits)

end
